theory Spec2Isabelle
  imports Main
begin

section \<open>The parser registry of \<open>AbstractScene\<close>\<close>

subsection \<open>JavaScript objects used as dictionaries\<close>

text \<open>
  The two registries are plain object literals \<^verbatim>\<open>{}\<close> indexed by strings:
  \<^verbatim>\<open>private static _BabylonFileParsers: { [key: string]: BabylonFileParser } = {};\<close>
  Such an object has own properties, kept in creation order, and a prototype, which is
  \<^verbatim>\<open>Object.prototype\<close> for a literal. Reading \<^verbatim>\<open>o[name]\<close> and writing
  \<^verbatim>\<open>o[name] = v\<close> both look along the prototype chain, so the chain is part of the model.

  The values stored are parser functions. A function is itself an object: it carries the
  behaviour run by a call and the own properties \<^verbatim>\<open>length\<close> (number of declared
  parameters) and \<^verbatim>\<open>name\<close>, both read-only. The parser types of the source are arrow
  function types, and the model takes a parser to be such a function object with the
  built-in prototypes \<^verbatim>\<open>Function.prototype\<close> and \<^verbatim>\<open>Object.prototype\<close> unmodified,
  \<^verbatim>\<open>Object.prototype\<close> having its accessor \<^verbatim>\<open>__proto__\<close> as it has in every browser.
  Built-in objects and functions are named by their path, as in
  \<open>JSIntrinsic ''Object.prototype.toString''\<close>.

  A parser written as a function expression has the own property \<^verbatim>\<open>prototype\<close> besides,
  and outside strict code what \<^verbatim>\<open>caller\<close> and \<^verbatim>\<open>arguments\<close> give depends on the engine.
  These three names are read only through a registry whose prototype a parser has
  replaced, and the model answers them as an arrow function does. The properties
  \<^verbatim>\<open>length\<close> and \<^verbatim>\<open>name\<close> are own and read-only for every function; the theorems that
  look through a replaced prototype read \<^verbatim>\<open>length\<close> only.
\<close>

record 'b function_object =
  fn_call :: 'b
  fn_length :: nat
  fn_name :: string

datatype js_error = TypeError

datatype 'f js_value =
    JSUndefined
  | JSNull
  | JSNumber nat
  | JSString string
  | JSFunction 'f
  | JSIntrinsic string

text \<open>\<^verbatim>\<open>if (v)\<close>: the truthiness of a value (ToBoolean). Objects and functions are truthy.\<close>

fun ToBoolean :: "'f js_value \<Rightarrow> bool" where
  "ToBoolean JSUndefined = False"
| "ToBoolean JSNull = False"
| "ToBoolean (JSNumber n) = (n \<noteq> 0)"
| "ToBoolean (JSString s) = (s \<noteq> [])"
| "ToBoolean (JSFunction f) = True"
| "ToBoolean (JSIntrinsic i) = True"

datatype 'f prototype = ObjectPrototype | FunctionObject 'f

record 'b js_object =
  own :: "(string \<times> 'b function_object) list"
  proto :: "'b function_object prototype"

text \<open>What an object inherits under a key: nothing, a data property (its value and
  whether it is writable), the accessor \<^verbatim>\<open>__proto__\<close> of \<^verbatim>\<open>Object.prototype\<close>, or one of
  the accessors \<^verbatim>\<open>caller\<close> and \<^verbatim>\<open>arguments\<close> of \<^verbatim>\<open>Function.prototype\<close>, whose getter
  and setter both throw a TypeError.\<close>

datatype 'f slot =
    Absent
  | DataProperty "'f js_value" bool
  | ProtoAccessor
  | ThrowingAccessor

definition object_prototype_methods :: "string list" where
  "object_prototype_methods =
     [''hasOwnProperty'', ''isPrototypeOf'', ''propertyIsEnumerable'', ''toLocaleString'',
      ''toString'', ''valueOf'', ''__defineGetter__'', ''__defineSetter__'',
      ''__lookupGetter__'', ''__lookupSetter__'']"

definition object_prototype_slot :: "string \<Rightarrow> 'f slot" where
  "object_prototype_slot k =
     (if k = ''constructor'' then DataProperty (JSIntrinsic ''Object'') True
      else if k \<in> set object_prototype_methods
        then DataProperty (JSIntrinsic (''Object.prototype.'' @ k)) True
      else if k = ''__proto__'' then ProtoAccessor
      else Absent)"

definition function_prototype_methods :: "string list" where
  "function_prototype_methods = [''apply'', ''bind'', ''call'', ''toString'']"

definition function_object_slot :: "'b function_object \<Rightarrow> string \<Rightarrow> 'b function_object slot" where
  "function_object_slot f k =
     (if k = ''length'' then DataProperty (JSNumber (fn_length f)) False
      else if k = ''name'' then DataProperty (JSString (fn_name f)) False
      else if k = ''constructor'' then DataProperty (JSIntrinsic ''Function'') True
      else if k \<in> set function_prototype_methods
        then DataProperty (JSIntrinsic (''Function.prototype.'' @ k)) True
      else if k = ''arguments'' \<or> k = ''caller'' then ThrowingAccessor
      else object_prototype_slot k)"

definition inherited_slot :: "'b js_object \<Rightarrow> string \<Rightarrow> 'b function_object slot" where
  "inherited_slot obj k =
     (case proto obj of
        ObjectPrototype \<Rightarrow> object_prototype_slot k
      | FunctionObject f \<Rightarrow> function_object_slot f k)"

definition own_property :: "'b js_object \<Rightarrow> string \<Rightarrow> 'b function_object option" where
  "own_property obj k = map_of (own obj) k"

text \<open>\<^verbatim>\<open>Object.prototype.hasOwnProperty.call(obj, k)\<close>\<close>

definition hasOwnProperty :: "'b js_object \<Rightarrow> string \<Rightarrow> bool" where
  "hasOwnProperty obj k = (own_property obj k \<noteq> None)"

text \<open>Storing an own data property: an existing one keeps its place in the creation
  order, a new one goes last.\<close>

fun own_put :: "string \<Rightarrow> 'v \<Rightarrow> (string \<times> 'v) list \<Rightarrow> (string \<times> 'v) list" where
  "own_put k v [] = [(k, v)]"
| "own_put k v ((k', v') # kvs) =
     (if k = k' then (k, v) # kvs else (k', v') # own_put k v kvs)"

text \<open>\<^verbatim>\<open>obj[k]\<close>: the own property if there is one, otherwise what the prototype chain
  gives; the getter of \<^verbatim>\<open>__proto__\<close> returns the prototype of \<open>obj\<close>.\<close>

definition js_get :: "'b js_object \<Rightarrow> string \<Rightarrow> js_error + 'b function_object js_value" where
  "js_get obj k =
     (case own_property obj k of
        Some f \<Rightarrow> Inr (JSFunction f)
      | None \<Rightarrow>
          (case inherited_slot obj k of
             Absent \<Rightarrow> Inr JSUndefined
           | DataProperty v w \<Rightarrow> Inr v
           | ProtoAccessor \<Rightarrow>
               (case proto obj of
                  ObjectPrototype \<Rightarrow> Inr (JSIntrinsic ''Object.prototype'')
                | FunctionObject f \<Rightarrow> Inr (JSFunction f))
           | ThrowingAccessor \<Rightarrow> Inl TypeError))"

text \<open>\<^verbatim>\<open>obj[k] = f\<close> in strict code (a module and a class body are strict): an own
  property is overwritten; an inherited read-only data property or a throwing setter makes
  the assignment a TypeError; the setter of \<^verbatim>\<open>__proto__\<close> replaces the prototype of
  \<open>obj\<close> by \<open>f\<close> and creates no own property; otherwise a new own property is created.\<close>

definition js_set :: "'b js_object \<Rightarrow> string \<Rightarrow> 'b function_object \<Rightarrow> js_error + 'b js_object" where
  "js_set obj k f =
     (case own_property obj k of
        Some g \<Rightarrow> Inr (obj\<lparr>own := own_put k f (own obj)\<rparr>)
      | None \<Rightarrow>
          (case inherited_slot obj k of
             Absent \<Rightarrow> Inr (obj\<lparr>own := own_put k f (own obj)\<rparr>)
           | DataProperty v w \<Rightarrow>
               (if w then Inr (obj\<lparr>own := own_put k f (own obj)\<rparr>) else Inl TypeError)
           | ProtoAccessor \<Rightarrow> Inr (obj\<lparr>proto := FunctionObject f\<rparr>)
           | ThrowingAccessor \<Rightarrow> Inl TypeError))"

subsection \<open>Enumeration order of \<^verbatim>\<open>for (const k in obj)\<close>\<close>

text \<open>
  Own string keys are visited with the array indices first, in ascending numeric order,
  then the other keys in creation order. An array index is the canonical decimal writing
  of an integer below \<open>2^32 - 1\<close>. Inherited properties would follow, but none of those
  modelled here is enumerable.
\<close>

definition is_digit :: "char \<Rightarrow> bool" where
  "is_digit ch = (48 \<le> (of_char ch :: nat) \<and> (of_char ch :: nat) \<le> 57)"

definition decimal_value :: "string \<Rightarrow> nat" where
  "decimal_value s = foldl (\<lambda>a ch. 10 * a + (of_char ch - 48)) 0 s"

definition is_array_index :: "string \<Rightarrow> bool" where
  "is_array_index s =
     (s \<noteq> [] \<and> list_all is_digit s
      \<and> (if hd s = CHR ''0'' then length s = 1 else True)
      \<and> decimal_value s < 2 ^ 32 - 1)"

definition own_keys :: "'b js_object \<Rightarrow> string list" where
  "own_keys obj =
     sort_key decimal_value (filter is_array_index (map fst (own obj)))
     @ filter (\<lambda>k. \<not> is_array_index k) (map fst (own obj))"

definition for_in_keys :: "'b js_object \<Rightarrow> string list" where
  "for_in_keys obj = own_keys obj"

subsection \<open>The static members\<close>

text \<open>
  The private static fields \<^verbatim>\<open>_BabylonFileParsers\<close> and
  \<^verbatim>\<open>_IndividualBabylonFileParsers\<close> are the fields \<open>BabylonFileParsers\<close> and
  \<open>IndividualBabylonFileParsers\<close> of the record \<open>statics\<close>; a static method takes the
  statics and, when it assigns, returns them updated, or the TypeError of the assignment.

  A whole-scene parser is called with the parsed data, the scene, the container and the
  root url. It works by side effect on the scene and the container, so the model threads
  a world \<open>'w\<close> through the call; a parser may also throw, and what it changed before
  throwing stays changed. An individual parser returns the asset it built.
\<close>

datatype 'x completion = Normal | Throw 'x

type_synonym ('d, 's, 'c, 'w, 'x) BabylonFileParser =
  "('d \<Rightarrow> 's \<Rightarrow> 'c \<Rightarrow> string \<Rightarrow> 'w \<Rightarrow> 'x completion \<times> 'w) function_object"

type_synonym ('d, 's, 'r, 'w, 'x) IndividualBabylonFileParser =
  "('d \<Rightarrow> 's \<Rightarrow> string \<Rightarrow> 'w \<Rightarrow> ('x + 'r) \<times> 'w) function_object"

record ('p, 'q) statics =
  BabylonFileParsers :: "'p js_object"
  IndividualBabylonFileParsers :: "'q js_object"

definition empty_object :: "'b js_object" where
  "empty_object = \<lparr>own = [], proto = ObjectPrototype\<rparr>"

definition initial_statics :: "('p, 'q) statics" where
  "initial_statics =
     \<lparr>BabylonFileParsers = empty_object, IndividualBabylonFileParsers = empty_object\<rparr>"

definition AddParser ::
  "string \<Rightarrow> 'p function_object \<Rightarrow> ('p, 'q) statics \<Rightarrow> js_error + ('p, 'q) statics" where
  "AddParser name parser st =
     (case js_set (BabylonFileParsers st) name parser of
        Inl e \<Rightarrow> Inl e
      | Inr obj \<Rightarrow> Inr (st\<lparr>BabylonFileParsers := obj\<rparr>))"

definition GetParser ::
  "string \<Rightarrow> ('p, 'q) statics \<Rightarrow> js_error + 'p function_object js_value" where
  "GetParser name st =
     (case js_get (BabylonFileParsers st) name of
        Inl e \<Rightarrow> Inl e
      | Inr v \<Rightarrow> if ToBoolean v then js_get (BabylonFileParsers st) name else Inr JSNull)"

definition AddIndividualParser ::
  "string \<Rightarrow> 'q function_object \<Rightarrow> ('p, 'q) statics \<Rightarrow> js_error + ('p, 'q) statics" where
  "AddIndividualParser name parser st =
     (case js_set (IndividualBabylonFileParsers st) name parser of
        Inl e \<Rightarrow> Inl e
      | Inr obj \<Rightarrow> Inr (st\<lparr>IndividualBabylonFileParsers := obj\<rparr>))"

definition GetIndividualParser ::
  "string \<Rightarrow> ('p, 'q) statics \<Rightarrow> js_error + 'q function_object js_value" where
  "GetIndividualParser name st =
     (case js_get (IndividualBabylonFileParsers st) name of
        Inl e \<Rightarrow> Inl e
      | Inr v \<Rightarrow>
          if ToBoolean v then js_get (IndividualBabylonFileParsers st) name else Inr JSNull)"

text \<open>
  \<^verbatim>\<open>Parse\<close> walks the keys of the registry, skips those that are not own properties
  (the \<^verbatim>\<open>hasOwnProperty\<close> guard) and calls the function stored under each of the others
  (\<^verbatim>\<open>obj[parserName]\<close> of an own property is that property). The model returns the calls made
  (name, function called and the four arguments), how the loop completed, and the world
  it leaves. The registry itself is not part of the world: a parser that registers
  parsers while \<^verbatim>\<open>Parse\<close> runs is outside the model.
\<close>

datatype ('f, 'd, 's, 'c) invocation =
  Invocation (inv_name: string) (inv_callee: 'f) (inv_data: 'd) (inv_scene: 's)
    (inv_container: 'c) (inv_rootUrl: string)

fun dispatch ::
  "('d \<Rightarrow> 's \<Rightarrow> 'c \<Rightarrow> string \<Rightarrow> 'w \<Rightarrow> 'x completion \<times> 'w) js_object \<Rightarrow> string list
   \<Rightarrow> 'd \<Rightarrow> 's \<Rightarrow> 'c \<Rightarrow> string \<Rightarrow> 'w
   \<Rightarrow> (('d, 's, 'c, 'w, 'x) BabylonFileParser, 'd, 's, 'c) invocation list
      \<times> 'x completion \<times> 'w" where
  "dispatch obj [] jsonData scene container rootUrl w = ([], Normal, w)"
| "dispatch obj (parserName # rest) jsonData scene container rootUrl w =
     (case own_property obj parserName of
        None \<Rightarrow> dispatch obj rest jsonData scene container rootUrl w
      | Some f \<Rightarrow>
          (case fn_call f jsonData scene container rootUrl w of
             (Throw x, w') \<Rightarrow>
               ([Invocation parserName f jsonData scene container rootUrl], Throw x, w')
           | (Normal, w') \<Rightarrow>
               (case dispatch obj rest jsonData scene container rootUrl w' of
                  (calls, result) \<Rightarrow>
                    (Invocation parserName f jsonData scene container rootUrl # calls,
                     result))))"

definition Parse ::
  "(('d \<Rightarrow> 's \<Rightarrow> 'c \<Rightarrow> string \<Rightarrow> 'w \<Rightarrow> 'x completion \<times> 'w), 'q) statics
   \<Rightarrow> 'd \<Rightarrow> 's \<Rightarrow> 'c \<Rightarrow> string \<Rightarrow> 'w
   \<Rightarrow> (('d, 's, 'c, 'w, 'x) BabylonFileParser, 'd, 's, 'c) invocation list
      \<times> 'x completion \<times> 'w" where
  "Parse st jsonData scene container rootUrl w =
     dispatch (BabylonFileParsers st) (for_in_keys (BabylonFileParsers st))
       jsonData scene container rootUrl w"

section \<open>The container: an instance of \<open>AbstractScene\<close>\<close>

subsection \<open>Arrays in a store\<close>

text \<open>
  Every field of the class holds a reference to an array object, and two of the properties
  of \<^verbatim>\<open>getNodes\<close> are about which array object is returned. Arrays therefore live in a
  store, at addresses; a field holds an address. Allocation takes the next unused address.
  The elements of the arrays are references to scene entities, of one type \<open>'a\<close>. A
  skeleton entity has the field \<^verbatim>\<open>bones\<close>, an array of its own.
\<close>

type_synonym address = nat

record 'a store =
  arrays :: "address \<Rightarrow> 'a list"
  bones :: "'a \<Rightarrow> address"
  next_address :: address


text \<open>\<^verbatim>\<open>new Array<T>()\<close>, an array literal, and the array built by \<^verbatim>\<open>concat\<close>: a new
  array object with the given elements.\<close>

definition new_Array :: "'a list \<Rightarrow> 'a store \<Rightarrow> address \<times> 'a store" where
  "new_Array xs s =
     (next_address s,
      s\<lparr>arrays := (arrays s)(next_address s := xs), next_address := Suc (next_address s)\<rparr>)"

text \<open>\<^verbatim>\<open>a.concat(b)\<close> leaves both arrays as they are and returns a new array holding the
  elements of \<open>a\<close> followed by those of \<open>b\<close>.\<close>

definition array_concat :: "address \<Rightarrow> address \<Rightarrow> 'a store \<Rightarrow> address \<times> 'a store" where
  "array_concat a b s = new_Array (arrays s a @ arrays s b) s"

subsection \<open>Fields, accessors and \<^verbatim>\<open>getNodes\<close>\<close>

record 'a AbstractScene =
  rootNodes :: address
  cameras :: address
  lights :: address
  meshes :: address
  skeletons :: address
  particleSystems :: address
  animations :: address
  animationGroups :: address
  multiMaterials :: address
  materials :: address
  morphTargetManagers :: address
  geometries :: address
  transformNodes :: address
  actionManagers :: address
  textures :: address
  environmentTexture :: "'a option"
  postProcesses :: address

text \<open>The protected field \<^verbatim>\<open>_environmentTexture\<close> is the field \<open>environmentTexture\<close> of
  the record; the accessors of the source are \<open>get_environmentTexture\<close> and
  \<open>set_environmentTexture\<close> below.\<close>

text \<open>The field initialisers, run in declaration order when an instance is constructed:
  each array field gets a new empty array, \<^verbatim>\<open>_environmentTexture\<close> is \<^verbatim>\<open>null\<close>.\<close>

definition new_AbstractScene :: "'a store \<Rightarrow> 'a AbstractScene \<times> 'a store" where
  "new_AbstractScene s0 =
     (let (a_rootNodes, s) = new_Array [] s0;
          (a_cameras, s) = new_Array [] s;
          (a_lights, s) = new_Array [] s;
          (a_meshes, s) = new_Array [] s;
          (a_skeletons, s) = new_Array [] s;
          (a_particleSystems, s) = new_Array [] s;
          (a_animations, s) = new_Array [] s;
          (a_animationGroups, s) = new_Array [] s;
          (a_multiMaterials, s) = new_Array [] s;
          (a_materials, s) = new_Array [] s;
          (a_morphTargetManagers, s) = new_Array [] s;
          (a_geometries, s) = new_Array [] s;
          (a_transformNodes, s) = new_Array [] s;
          (a_actionManagers, s) = new_Array [] s;
          (a_textures, s) = new_Array [] s;
          (a_postProcesses, s) = new_Array [] s
      in (\<lparr>rootNodes = a_rootNodes, cameras = a_cameras, lights = a_lights,
           meshes = a_meshes, skeletons = a_skeletons, particleSystems = a_particleSystems,
           animations = a_animations, animationGroups = a_animationGroups,
           multiMaterials = a_multiMaterials, materials = a_materials,
           morphTargetManagers = a_morphTargetManagers, geometries = a_geometries,
           transformNodes = a_transformNodes, actionManagers = a_actionManagers,
           textures = a_textures, environmentTexture = None,
           postProcesses = a_postProcesses\<rparr>, s))"

text \<open>The array fields of the class, in declaration order.\<close>

definition sequences :: "'a AbstractScene \<Rightarrow> address list" where
  "sequences this =
     [rootNodes this, cameras this, lights this, meshes this, skeletons this,
      particleSystems this, animations this, animationGroups this, multiMaterials this,
      materials this, morphTargetManagers this, geometries this, transformNodes this,
      actionManagers this, textures this, postProcesses this]"

definition get_environmentTexture :: "'a AbstractScene \<Rightarrow> 'a option" where
  "get_environmentTexture this = environmentTexture this"

definition set_environmentTexture :: "'a option \<Rightarrow> 'a AbstractScene \<Rightarrow> 'a AbstractScene" where
  "set_environmentTexture v this = this\<lparr>environmentTexture := v\<rparr>"

text \<open>\<^verbatim>\<open>this.skeletons.forEach((skeleton) => (nodes = nodes.concat(skeleton.bones)))\<close>:
  the skeletons are visited in index order, and each visit replaces \<open>nodes\<close> by a new
  array.\<close>

fun concat_bones :: "'a list \<Rightarrow> address \<times> 'a store \<Rightarrow> address \<times> 'a store" where
  "concat_bones [] (nodes, s) = (nodes, s)"
| "concat_bones (skeleton # rest) (nodes, s) =
     concat_bones rest (array_concat nodes (bones s skeleton) s)"

text \<open>
  \<^verbatim>\<open>getNodes\<close>: a new empty array, then one \<^verbatim>\<open>concat\<close> for each of meshes, lights,
  cameras and transform nodes, then the loop over the skeletons. The result is the address
  of the last array built, together with the store after the call.
\<close>

definition getNodes :: "'a AbstractScene \<Rightarrow> 'a store \<Rightarrow> address \<times> 'a store" where
  "getNodes this s0 =
     (let (nodes, s) = new_Array [] s0;
          (nodes, s) = array_concat nodes (meshes this) s;
          (nodes, s) = array_concat nodes (lights this) s;
          (nodes, s) = array_concat nodes (cameras this) s;
          (nodes, s) = array_concat nodes (transformNodes this) s
      in concat_bones (arrays s (skeletons this)) (nodes, s))"

text \<open>A container is well formed in a store when its arrays, and the bone arrays of its
  skeletons, are allocated there.\<close>

definition wf_scene :: "'a AbstractScene \<Rightarrow> 'a store \<Rightarrow> bool" where
  "wf_scene this s =
     (list_all (\<lambda>a. a < next_address s) (sequences this)
      \<and> list_all (\<lambda>sk. bones s sk < next_address s) (arrays s (skeletons this)))"

section \<open>Example registries and containers\<close>

text \<open>Three whole-scene parsers over a world that logs who ran: \<open>parser_a\<close> and
  \<open>parser_c\<close> complete normally, \<open>parser_b\<close> writes to the world and then throws. Each
  declares the four parameters of \<^verbatim>\<open>BabylonFileParser\<close>.\<close>

definition parser_a :: "(nat, nat, nat, string list, string) BabylonFileParser" where
  "parser_a =
     \<lparr>fn_call = (\<lambda>d s c r w. (Normal, w @ [''a''])), fn_length = 4, fn_name = ''a''\<rparr>"

definition parser_b :: "(nat, nat, nat, string list, string) BabylonFileParser" where
  "parser_b =
     \<lparr>fn_call = (\<lambda>d s c r w. (Throw ''boom'', w @ [''b''])), fn_length = 4, fn_name = ''b''\<rparr>"

definition parser_c :: "(nat, nat, nat, string list, string) BabylonFileParser" where
  "parser_c =
     \<lparr>fn_call = (\<lambda>d s c r w. (Normal, w @ [''c''])), fn_length = 4, fn_name = ''c''\<rparr>"

definition individual_a :: "(nat, nat, nat, string list, string) IndividualBabylonFileParser" where
  "individual_a = \<lparr>fn_call = (\<lambda>d s r w. (Inr d, w)), fn_length = 3, fn_name = ''ia''\<rparr>"

type_synonym example_statics =
  "(nat \<Rightarrow> nat \<Rightarrow> nat \<Rightarrow> string \<Rightarrow> string list \<Rightarrow> string completion \<times> string list,
    nat \<Rightarrow> nat \<Rightarrow> string \<Rightarrow> string list \<Rightarrow> (string + nat) \<times> string list) statics"

definition fresh_statics :: example_statics where
  "fresh_statics = initial_statics"

text \<open>\<open>parser_a\<close> registered under \<^verbatim>\<open>lights\<close>, then \<open>parser_c\<close> under \<^verbatim>\<open>7\<close>.\<close>

definition statics_ordered :: example_statics where
  "statics_ordered =
     \<lparr>BabylonFileParsers =
        \<lparr>own = [(''lights'', parser_a), (''7'', parser_c)], proto = ObjectPrototype\<rparr>,
      IndividualBabylonFileParsers = empty_object\<rparr>"

definition statics_failing :: example_statics where
  "statics_failing =
     \<lparr>BabylonFileParsers =
        \<lparr>own = [(''a'', parser_a), (''b'', parser_b), (''c'', parser_c)],
         proto = ObjectPrototype\<rparr>,
      IndividualBabylonFileParsers = empty_object\<rparr>"

text \<open>The registry after \<^verbatim>\<open>AddParser("__proto__", parser_a)\<close> on the initial one.\<close>

definition statics_proto_replaced :: example_statics where
  "statics_proto_replaced =
     \<lparr>BabylonFileParsers = \<lparr>own = [], proto = FunctionObject parser_a\<rparr>,
      IndividualBabylonFileParsers = empty_object\<rparr>"

text \<open>A container with one mesh, one light, one camera, one transform node and one
  skeleton of two bones, and with a root node and a material besides. The sixteen arrays
  of the container are at the addresses 0 to 15, the bones of the skeleton at 16.\<close>

definition example_scene :: "string AbstractScene" where
  "example_scene =
     \<lparr>rootNodes = 0, cameras = 1, lights = 2, meshes = 3, skeletons = 4,
      particleSystems = 5, animations = 6, animationGroups = 7, multiMaterials = 8,
      materials = 9, morphTargetManagers = 10, geometries = 11, transformNodes = 12,
      actionManagers = 13, textures = 14, environmentTexture = None, postProcesses = 15\<rparr>"

definition example_store :: "string store" where
  "example_store =
     \<lparr>arrays = (\<lambda>a. [])
        (0 := [''m1''], 1 := [''c1''], 2 := [''l1''], 3 := [''m1''], 4 := [''s1''],
         9 := [''mat1''], 12 := [''t1''], 16 := [''b1'', ''b2'']),
      bones = (\<lambda>e. 16),
      next_address = 17\<rparr>"

section \<open>Properties of the registry\<close>

subsection \<open>Own properties\<close>

lemma own_put_map_of: "map_of (own_put k v kvs) = (map_of kvs)(k \<mapsto> v)"
  by (induction kvs) (auto simp: fun_eq_iff)

lemma own_put_keys: "fst ` set (own_put k v kvs) = insert k (fst ` set kvs)"
  by (induction kvs) (force split: if_splits)+

lemma own_put_distinct: "distinct (map fst kvs) \<Longrightarrow> distinct (map fst (own_put k v kvs))"
  by (induction kvs) (auto simp: own_put_keys)

lemma own_put_twice: "own_put k v2 (own_put k v1 kvs) = own_put k v2 kvs"
  by (induction kvs) auto

lemma own_property_put [simp]:
  "own_property (obj\<lparr>own := own_put k f (own obj)\<rparr>) k' =
     (if k' = k then Some f else own_property obj k')"
  by (simp add: own_property_def own_put_map_of)

lemma own_property_proto_update [simp]:
  "own_property (obj\<lparr>proto := p\<rparr>) k = own_property obj k"
  by (simp add: own_property_def)

lemma inherited_slot_own_update [simp]:
  "inherited_slot (obj\<lparr>own := kvs\<rparr>) k = inherited_slot obj k"
  by (simp add: inherited_slot_def)

subsection \<open>Enumeration\<close>

lemma set_own_keys: "set (own_keys obj) = fst ` set (own obj)"
  by (auto simp: own_keys_def)

lemma distinct_own_keys: "distinct (map fst (own obj)) \<Longrightarrow> distinct (own_keys obj)"
  by (auto simp: own_keys_def)

lemma own_property_own_keys: "k \<in> set (own_keys obj) \<Longrightarrow> \<exists>f. own_property obj k = Some f"
  unfolding set_own_keys own_property_def
  by (metis map_of_eq_None_iff not_None_eq)

lemma filter_hasOwn_own_keys: "filter (hasOwnProperty obj) (own_keys obj) = own_keys obj"
  using own_property_own_keys [of _ obj] by (auto simp: hasOwnProperty_def filter_id_conv)

subsection \<open>The prototype chain\<close>

lemma inherited_slot_proto [simp]: "inherited_slot obj ''__proto__'' = ProtoAccessor"
  by (simp add: inherited_slot_def function_object_slot_def function_prototype_methods_def
      object_prototype_slot_def object_prototype_methods_def split: prototype.splits)

lemma inherited_slot_not_proto: "k \<noteq> ''__proto__'' \<Longrightarrow> inherited_slot obj k \<noteq> ProtoAccessor"
  by (simp add: inherited_slot_def function_object_slot_def function_prototype_methods_def
      object_prototype_slot_def object_prototype_methods_def split: prototype.splits)

lemma object_prototype_writable:
  "proto obj = ObjectPrototype \<Longrightarrow>
     inherited_slot obj k \<noteq> ThrowingAccessor \<and> inherited_slot obj k \<noteq> DataProperty v False"
  by (simp add: inherited_slot_def object_prototype_slot_def)

lemma js_set_own:
  "own_property obj k = Some g \<Longrightarrow> js_set obj k f = Inr (obj\<lparr>own := own_put k f (own obj)\<rparr>)"
  by (simp add: js_set_def)

lemma js_set_proto:
  "own_property obj ''__proto__'' = None \<Longrightarrow>
     js_set obj ''__proto__'' f = Inr (obj\<lparr>proto := FunctionObject f\<rparr>)"
  by (simp add: js_set_def)

lemma js_set_new:
  assumes "proto obj = ObjectPrototype" and "k \<noteq> ''__proto__''"
  shows "js_set obj k f = Inr (obj\<lparr>own := own_put k f (own obj)\<rparr>)"
proof (cases "own_property obj k")
  case (Some g)
  then show ?thesis by (rule js_set_own)
next
  case None
  from inherited_slot_not_proto [OF assms(2), of obj] object_prototype_writable [OF assms(1), of k]
  show ?thesis
    by (cases "inherited_slot obj k") (auto simp: js_set_def None)
qed

lemma js_set_cases:
  assumes "js_set obj k f = Inr obj'"
  shows "(k = ''__proto__'' \<and> own_property obj k = None \<and> obj' = obj\<lparr>proto := FunctionObject f\<rparr>)
       \<or> ((k \<noteq> ''__proto__'' \<or> own_property obj k \<noteq> None)
          \<and> obj' = obj\<lparr>own := own_put k f (own obj)\<rparr>)"
proof (cases "own_property obj k")
  case (Some g)
  with assms show ?thesis by (simp add: js_set_own)
next
  case None
  show ?thesis
  proof (cases "k = ''__proto__''")
    case True
    with assms None show ?thesis by (simp add: js_set_proto)
  next
    case False
    from inherited_slot_not_proto [OF False, of obj] assms None False show ?thesis
      by (cases "inherited_slot obj k") (auto simp: js_set_def split: if_splits)
  qed
qed

lemma js_get_own: "own_property obj k = Some f \<Longrightarrow> js_get obj k = Inr (JSFunction f)"
  by (simp add: js_get_def)

lemma js_get_proto:
  "own_property obj ''__proto__'' = None \<Longrightarrow> proto obj = FunctionObject f \<Longrightarrow>
     js_get obj ''__proto__'' = Inr (JSFunction f)"
  by (simp add: js_get_def)

text \<open>Whenever an assignment \<^verbatim>\<open>obj[n] = p\<close> completes, \<^verbatim>\<open>obj[n]\<close> reads \<open>p\<close>.\<close>

lemma js_set_get: "js_set obj n p = Inr obj' \<Longrightarrow> js_get obj' n = Inr (JSFunction p)"
  using js_set_cases [of obj n p obj'] by (auto simp: js_get_own js_get_proto)

text \<open>An object whose prototype is \<^verbatim>\<open>Object.prototype\<close> accepts every assignment.\<close>

lemma js_set_default_proto: "proto obj = ObjectPrototype \<Longrightarrow> \<exists>obj'. js_set obj n p = Inr obj'"
  by (cases "n = ''__proto__''"; cases "own_property obj n")
    (simp_all add: js_set_own js_set_proto js_set_new)

text \<open>Whether an assignment completes does not depend on the value assigned.\<close>

lemma js_set_completes:
  assumes "js_set obj n p1 = Inr obj1"
  shows "\<exists>obj2. js_set obj n p2 = Inr obj2"
proof (cases "own_property obj n")
  case (Some g)
  then show ?thesis by (simp add: js_set_own)
next
  case None
  with assms show ?thesis
    by (cases "inherited_slot obj n") (auto simp: js_set_def split: if_splits)
qed

text \<open>A second assignment under the same key undoes the first.\<close>

lemma js_set_twice:
  assumes "js_set obj n p1 = Inr obj1"
  shows "js_set obj1 n p2 = js_set obj n p2"
proof (cases "own_property obj n")
  case (Some g)
  with assms have "obj1 = obj\<lparr>own := own_put n p1 (own obj)\<rparr>" by (simp add: js_set_own)
  then show ?thesis using Some by (simp add: js_set_own own_put_twice)
next
  case None
  show ?thesis
  proof (cases "n = ''__proto__''")
    case True
    with assms None have "obj1 = obj\<lparr>proto := FunctionObject p1\<rparr>"
      by (simp add: js_set_proto)
    then show ?thesis using None True by (simp add: js_set_proto)
  next
    case False
    from js_set_cases [OF assms] False
    have obj1: "obj1 = obj\<lparr>own := own_put n p1 (own obj)\<rparr>" by auto
    have "js_set obj1 n p2 = Inr (obj\<lparr>own := own_put n p2 (own obj)\<rparr>)"
      unfolding obj1 by (simp add: js_set_own own_put_twice)
    moreover from js_set_completes [OF assms, of p2] obtain obj2
      where obj2: "js_set obj n p2 = Inr obj2" by blast
    from js_set_cases [OF obj2] False
    have "obj2 = obj\<lparr>own := own_put n p2 (own obj)\<rparr>" by auto
    ultimately show ?thesis using obj2 by simp
  qed
qed

lemma js_set_distinct:
  "js_set obj n p = Inr obj' \<Longrightarrow> distinct (map fst (own obj)) \<Longrightarrow>
     distinct (map fst (own obj'))"
  using js_set_cases [of obj n p obj'] by (auto simp: own_put_distinct)

lemma js_get_own_put_other:
  "m \<noteq> n \<Longrightarrow> js_get (obj\<lparr>own := own_put n p (own obj)\<rparr>) m = js_get obj m"
  by (simp add: js_get_def cong: option.case_cong slot.case_cong)

lemma js_set_other:
  assumes "js_set obj n p = Inr obj'" and "n \<noteq> ''__proto__''" and "m \<noteq> n"
  shows "js_get obj' m = js_get obj m"
proof -
  from js_set_cases [OF assms(1)] assms(2)
  have "obj' = obj\<lparr>own := own_put n p (own obj)\<rparr>" by auto
  with assms(3) show ?thesis by (simp add: js_get_own_put_other)
qed

subsection \<open>The dispatch loop\<close>

lemma dispatch_calls:
  "dispatch obj ks d s c r w = (calls, res, w') \<Longrightarrow> i \<in> set calls \<Longrightarrow>
     own_property obj (inv_name i) = Some (inv_callee i) \<and> inv_data i = d \<and> inv_scene i = s
     \<and> inv_container i = c \<and> inv_rootUrl i = r"
proof (induction ks arbitrary: w calls res w')
  case Nil
  then show ?case by simp
next
  case (Cons k ks)
  show ?case
  proof (cases "own_property obj k")
    case None
    with Cons show ?thesis by simp
  next
    case (Some f)
    obtain res1 w1 where f: "fn_call f d s c r w = (res1, w1)"
      by (cases "fn_call f d s c r w")
    show ?thesis
    proof (cases res1)
      case Normal
      obtain cs res2 w2 where rest: "dispatch obj ks d s c r w1 = (cs, res2, w2)"
        by (cases "dispatch obj ks d s c r w1")
      from Cons.prems(1) Some f Normal rest
      have calls: "calls = Invocation k f d s c r # cs" by simp
      show ?thesis
      proof (cases "i = Invocation k f d s c r")
        case True
        then show ?thesis using Some by simp
      next
        case False
        with calls Cons.prems(2) have "i \<in> set cs" by simp
        with Cons.IH [OF rest] show ?thesis by simp
      qed
    next
      case (Throw x)
      with Cons.prems Some f show ?thesis by auto
    qed
  qed
qed

lemma dispatch_names:
  "dispatch obj ks d s c r w = (calls, res, w') \<Longrightarrow>
     \<exists>rest. filter (hasOwnProperty obj) ks = map inv_name calls @ rest
           \<and> (res = Normal \<longrightarrow> rest = [])"
proof (induction ks arbitrary: w calls w')
  case Nil
  then show ?case by simp
next
  case (Cons k ks)
  show ?case
  proof (cases "own_property obj k")
    case None
    with Cons show ?thesis by (simp add: hasOwnProperty_def)
  next
    case (Some f)
    obtain res1 w1 where f: "fn_call f d s c r w = (res1, w1)"
      by (cases "fn_call f d s c r w")
    show ?thesis
    proof (cases res1)
      case Normal
      obtain cs res2 w2 where rest: "dispatch obj ks d s c r w1 = (cs, res2, w2)"
        by (cases "dispatch obj ks d s c r w1")
      from Cons.prems Some f Normal rest
      have calls: "calls = Invocation k f d s c r # cs" and res2: "res2 = res" by simp_all
      from Cons.IH [OF rest [unfolded res2]] calls Some show ?thesis
        by (auto simp: hasOwnProperty_def)
    next
      case (Throw x)
      with Cons.prems Some f show ?thesis by (auto simp: hasOwnProperty_def)
    qed
  qed
qed

text \<open>A throw ends the loop: the keys after the throwing parser are not looked at, the
  thrown value and the world the parser left are returned as they are.\<close>

lemma dispatch_throw:
  assumes "dispatch obj pre d s c r w = (calls, Normal, w1)"
      and "own_property obj k = Some f"
      and "fn_call f d s c r w1 = (Throw x, w2)"
  shows "dispatch obj (pre @ k # post) d s c r w =
           (calls @ [Invocation k f d s c r], Throw x, w2)"
  using assms
proof (induction pre arbitrary: w calls)
  case Nil
  then show ?case by simp
next
  case (Cons k' pre)
  show ?case
  proof (cases "own_property obj k'")
    case None
    with Cons show ?thesis by simp
  next
    case (Some g)
    obtain res1 w' where g: "fn_call g d s c r w = (res1, w')"
      by (cases "fn_call g d s c r w")
    show ?thesis
    proof (cases res1)
      case Normal
      obtain cs res2 w'' where rest: "dispatch obj pre d s c r w' = (cs, res2, w'')"
        by (cases "dispatch obj pre d s c r w'")
      from Cons.prems(1) Some g Normal rest
      have eqs: "calls = Invocation k' g d s c r # cs" "res2 = Normal" "w'' = w1" by simp_all
      from Cons.IH [OF rest [unfolded eqs(2,3)] Cons.prems(2,3)] Some g Normal eqs
      show ?thesis by simp
    next
      case (Throw y)
      with Cons.prems(1) Some g show ?thesis by simp
    qed
  qed
qed

subsection \<open>Claims about the registry\<close>

text \<open>When the parsers of a list of entries complete normally one after the other, the
  loop over their names calls each of them, on the world the earlier ones left.\<close>

lemma dispatch_all_normal:
  assumes "\<forall>e \<in> set entries. own_property obj (fst e) = Some (snd e)"
      and "\<forall>i < length entries.
             fst (fn_call (snd (entries ! i)) d s c r
                   (foldl (\<lambda>w e. snd (fn_call (snd e) d s c r w)) w (take i entries))) = Normal"
  shows "dispatch obj (map fst entries) d s c r w =
           (map (\<lambda>e. Invocation (fst e) (snd e) d s c r) entries, Normal,
            foldl (\<lambda>w e. snd (fn_call (snd e) d s c r w)) w entries)"
  using assms
proof (induction entries arbitrary: w)
  case Nil
  then show ?case by simp
next
  case (Cons e es)
  have own: "own_property obj (fst e) = Some (snd e)" using Cons.prems(1) by simp
  have "fst (fn_call (snd e) d s c r w) = Normal" using Cons.prems(2) by fastforce
  then obtain w1 where call: "fn_call (snd e) d s c r w = (Normal, w1)"
    by (cases "fn_call (snd e) d s c r w") simp
  have rest_own: "\<forall>e' \<in> set es. own_property obj (fst e') = Some (snd e')"
    using Cons.prems(1) by simp
  have rest_normal: "\<forall>i < length es.
             fst (fn_call (snd (es ! i)) d s c r
                   (foldl (\<lambda>w e. snd (fn_call (snd e) d s c r w)) w1 (take i es))) = Normal"
  proof (intro allI impI)
    fix i assume "i < length es"
    then have "Suc i < length (e # es)" by simp
    from Cons.prems(2) [rule_format, OF this] show
      "fst (fn_call (snd (es ! i)) d s c r
         (foldl (\<lambda>w e. snd (fn_call (snd e) d s c r w)) w1 (take i es))) = Normal"
      by (simp add: call)
  qed
  from Cons.IH [OF rest_own rest_normal] own call show ?case by simp
qed

text \<open>When the first to throw is the parser at position \<open>j\<close>, the loop ends there.\<close>

lemma dispatch_first_throw:
  assumes "\<forall>e \<in> set entries. own_property obj (fst e) = Some (snd e)"
      and "j < length entries"
      and "\<forall>i < j.
             fst (fn_call (snd (entries ! i)) d s c r
                   (foldl (\<lambda>w e. snd (fn_call (snd e) d s c r w)) w (take i entries))) = Normal"
      and "fn_call (snd (entries ! j)) d s c r
             (foldl (\<lambda>w e. snd (fn_call (snd e) d s c r w)) w (take j entries)) = (Throw x, w')"
  shows "dispatch obj (map fst entries) d s c r w =
           (map (\<lambda>e. Invocation (fst e) (snd e) d s c r) (take (Suc j) entries), Throw x, w')"
proof -
  let ?pre = "take j entries" and ?e = "entries ! j" and ?post = "drop (Suc j) entries"
  have split: "entries = ?pre @ ?e # ?post" using assms(2) by (rule id_take_nth_drop)
  have pre_own: "\<forall>e \<in> set ?pre. own_property obj (fst e) = Some (snd e)"
    using assms(1) by (auto dest: in_set_takeD)
  have pre_normal: "\<forall>i < length ?pre.
             fst (fn_call (snd (?pre ! i)) d s c r
                   (foldl (\<lambda>w e. snd (fn_call (snd e) d s c r w)) w (take i ?pre))) = Normal"
    using assms(2,3) by (simp add: min_def)
  have own: "own_property obj (fst ?e) = Some (snd ?e)"
    using assms(1,2) by simp
  have keys: "map fst entries = map fst ?pre @ fst ?e # map fst ?post"
    by (subst split) simp
  have tk: "take (Suc j) entries = ?pre @ [?e]"
    using assms(2) by (simp add: take_Suc_conv_app_nth)
  show ?thesis
    unfolding keys tk
    using dispatch_throw [OF dispatch_all_normal [OF pre_own pre_normal] own assms(4)]
    by simp
qed

text \<open>The registered entries in enumeration order.\<close>

lemma entries_in_order:
  assumes "distinct (map fst (own obj))"
  shows "\<exists>entries. map fst entries = for_in_keys obj
          \<and> distinct (map fst entries)
          \<and> set entries = set (own obj)
          \<and> (\<forall>e \<in> set entries. own_property obj (fst e) = Some (snd e))"
proof -
  let ?entries = "map (\<lambda>k. (k, the (own_property obj k))) (own_keys obj)"
  have keys: "map fst ?entries = own_keys obj" by (simp add: comp_def)
  have own: "\<And>k f. ((k, f) \<in> set (own obj)) = (own_property obj k = Some f)"
    using assms by (simp add: own_property_def)
  have all: "set ?entries = set (own obj)"
  proof (intro set_eqI iffI)
    fix e assume "e \<in> set ?entries"
    then obtain k where k: "k \<in> set (own_keys obj)" and e: "e = (k, the (own_property obj k))"
      by auto
    from own_property_own_keys [OF k] obtain f where "own_property obj k = Some f" by blast
    with e own show "e \<in> set (own obj)" by simp
  next
    fix e assume e: "e \<in> set (own obj)"
    then have "fst e \<in> set (own_keys obj)" by (simp add: set_own_keys)
    moreover from e own [of "fst e" "snd e"] have "own_property obj (fst e) = Some (snd e)"
      by simp
    ultimately show "e \<in> set ?entries" by (force simp: image_iff)
  qed
  have looked_up: "\<forall>e \<in> set ?entries. own_property obj (fst e) = Some (snd e)"
    using own_property_own_keys [of _ obj] by auto
  have dist: "distinct (map fst ?entries)"
    unfolding keys using assms by (rule distinct_own_keys)
  have "map fst ?entries = for_in_keys obj" using keys by (simp only: for_in_keys_def)
  with dist all looked_up show ?thesis by blast
qed

text \<open>
  Claim C1. In every registry state, the registered parsers, taken in the enumeration
  order of the registry, form a list \<open>entries\<close> in which every entry of the registry
  occurs exactly once, and \<^verbatim>\<open>Parse(data, scene, container, basePath)\<close> runs that list:
  when each parser, called with the four arguments of \<^verbatim>\<open>Parse\<close> themselves on the world
  the earlier ones left, completes normally, \<^verbatim>\<open>Parse\<close> has called every entry exactly
  once, in that order and with those arguments, completes normally, and leaves the world
  that the calls produce one after the other. No entry is skipped, whatever \<open>data\<close> is.
  When the parser at position \<open>j\<close> is the first to throw, \<^verbatim>\<open>Parse\<close> has called the
  entries up to and including it and throws what it threw (the case of claim C2).
\<close>

theorem Parse_invokes_every_registered_parser_once:
  assumes "distinct (map fst (own (BabylonFileParsers st)))"
  shows "\<exists>entries.
      map fst entries = for_in_keys (BabylonFileParsers st)
    \<and> distinct (map fst entries)
    \<and> set entries = set (own (BabylonFileParsers st))
    \<and> ((\<forall>i < length entries.
           fst (fn_call (snd (entries ! i)) d s c r
                 (foldl (\<lambda>w e. snd (fn_call (snd e) d s c r w)) w (take i entries))) = Normal)
        \<longrightarrow> Parse st d s c r w =
              (map (\<lambda>e. Invocation (fst e) (snd e) d s c r) entries, Normal,
               foldl (\<lambda>w e. snd (fn_call (snd e) d s c r w)) w entries))
    \<and> (\<forall>j x w'.
          j < length entries
          \<and> (\<forall>i < j.
                fst (fn_call (snd (entries ! i)) d s c r
                      (foldl (\<lambda>w e. snd (fn_call (snd e) d s c r w)) w (take i entries)))
                  = Normal)
          \<and> fn_call (snd (entries ! j)) d s c r
                (foldl (\<lambda>w e. snd (fn_call (snd e) d s c r w)) w (take j entries))
              = (Throw x, w')
        \<longrightarrow> Parse st d s c r w =
              (map (\<lambda>e. Invocation (fst e) (snd e) d s c r) (take (Suc j) entries),
               Throw x, w'))"
proof -
  from entries_in_order [OF assms] obtain entries where
    keys: "map fst entries = for_in_keys (BabylonFileParsers st)"
    and dist: "distinct (map fst entries)"
    and all: "set entries = set (own (BabylonFileParsers st))"
    and own: "\<forall>e \<in> set entries. own_property (BabylonFileParsers st) (fst e) = Some (snd e)"
    by blast
  have normal: "(\<forall>i < length entries.
           fst (fn_call (snd (entries ! i)) d s c r
                 (foldl (\<lambda>w e. snd (fn_call (snd e) d s c r w)) w (take i entries))) = Normal)
        \<longrightarrow> Parse st d s c r w =
              (map (\<lambda>e. Invocation (fst e) (snd e) d s c r) entries, Normal,
               foldl (\<lambda>w e. snd (fn_call (snd e) d s c r w)) w entries)"
    using dispatch_all_normal [OF own, of d s c r w] by (simp add: Parse_def keys [symmetric])
  have throw: "\<forall>j x w'.
          j < length entries
          \<and> (\<forall>i < j.
                fst (fn_call (snd (entries ! i)) d s c r
                      (foldl (\<lambda>w e. snd (fn_call (snd e) d s c r w)) w (take i entries)))
                  = Normal)
          \<and> fn_call (snd (entries ! j)) d s c r
                (foldl (\<lambda>w e. snd (fn_call (snd e) d s c r w)) w (take j entries))
              = (Throw x, w')
        \<longrightarrow> Parse st d s c r w =
              (map (\<lambda>e. Invocation (fst e) (snd e) d s c r) (take (Suc j) entries),
               Throw x, w')"
    using dispatch_first_throw [OF own, of _ d s c r w]
    by (simp add: Parse_def keys [symmetric])
  from keys dist all normal throw show ?thesis by blast
qed

lemma statics_ordered_keys:
  "for_in_keys (BabylonFileParsers statics_ordered) = [''7'', ''lights'']"
  by (simp add: statics_ordered_def for_in_keys_def own_keys_def is_array_index_def
      is_digit_def decimal_value_def)

theorem Parse_invokes_every_registered_parser_once_witness:
  "distinct (map fst (own (BabylonFileParsers statics_ordered)))
   \<and> Parse statics_ordered 10 20 30 ''root/'' [] =
       ([Invocation ''7'' parser_c 10 20 30 ''root/'',
         Invocation ''lights'' parser_a 10 20 30 ''root/''],
        Normal, [''c'', ''a''])"
proof -
  have d: "distinct (map fst (own (BabylonFileParsers statics_ordered)))"
    by (simp add: statics_ordered_def)
  from Parse_invokes_every_registered_parser_once [OF d, of 10 20 30 "''root/''" "[]"]
  obtain entries where
    keys: "map fst entries = for_in_keys (BabylonFileParsers statics_ordered)"
    and all: "set entries = set (own (BabylonFileParsers statics_ordered))"
    and run: "(\<forall>i < length entries.
           fst (fn_call (snd (entries ! i)) 10 20 30 ''root/''
                 (foldl (\<lambda>w e. snd (fn_call (snd e) 10 20 30 ''root/'' w)) [] (take i entries)))
             = Normal)
        \<longrightarrow> Parse statics_ordered 10 20 30 ''root/'' [] =
              (map (\<lambda>e. Invocation (fst e) (snd e) 10 20 30 ''root/'') entries, Normal,
               foldl (\<lambda>w e. snd (fn_call (snd e) 10 20 30 ''root/'' w)) [] entries)"
    by blast
  from keys obtain f1 f2 where e: "entries = [(''7'', f1), (''lights'', f2)]"
    unfolding statics_ordered_keys by (auto simp: map_eq_Cons_conv)
  have registered: "own (BabylonFileParsers statics_ordered)
                      = [(''lights'', parser_a), (''7'', parser_c)]"
    by (simp add: statics_ordered_def)
  from all [unfolded e registered]
  have "{(''7'', f1), (''lights'', f2)} = {(''lights'', parser_a), (''7'', parser_c)}"
    by simp
  then have "f1 = parser_c" and "f2 = parser_a"
    by (simp_all add: doubleton_eq_iff)
  with e have entries: "entries = [(''7'', parser_c), (''lights'', parser_a)]" by simp
  have "\<forall>i < length entries.
           fst (fn_call (snd (entries ! i)) 10 20 30 ''root/''
                 (foldl (\<lambda>w e. snd (fn_call (snd e) 10 20 30 ''root/'' w)) [] (take i entries)))
             = Normal"
    unfolding entries by (simp add: less_Suc_eq parser_a_def parser_c_def)
  with run have "Parse statics_ordered 10 20 30 ''root/'' [] =
              (map (\<lambda>e. Invocation (fst e) (snd e) 10 20 30 ''root/'') entries, Normal,
               foldl (\<lambda>w e. snd (fn_call (snd e) 10 20 30 ''root/'' w)) [] entries)"
    by blast
  with d show ?thesis unfolding entries by (simp add: parser_a_def parser_c_def)
qed

text \<open>
  Claim C2. For every registry whose parsers are \<open>p1\<close>, \<open>p2\<close>, \<open>p3\<close> in enumeration
  order: if \<open>p1\<close> completes and \<open>p2\<close> then throws \<open>x\<close>, \<^verbatim>\<open>Parse\<close> has called \<open>p1\<close> and
  \<open>p2\<close> and never \<open>p3\<close>, it completes by throwing the same \<open>x\<close>, and the world it leaves is
  the one \<open>p2\<close> left when it threw, built on what \<open>p1\<close> did: nothing is rolled back.
\<close>

theorem Parse_stops_at_first_throw:
  assumes "for_in_keys (BabylonFileParsers st) = [k1, k2, k3]"
      and "own_property (BabylonFileParsers st) k1 = Some p1"
      and "own_property (BabylonFileParsers st) k2 = Some p2"
      and "own_property (BabylonFileParsers st) k3 = Some p3"
      and "fn_call p1 d s c r w = (Normal, w1)"
      and "fn_call p2 d s c r w1 = (Throw x, w2)"
  shows "Parse st d s c r w =
           ([Invocation k1 p1 d s c r, Invocation k2 p2 d s c r], Throw x, w2)"
proof -
  have "dispatch (BabylonFileParsers st) [k1] d s c r w = ([Invocation k1 p1 d s c r], Normal, w1)"
    using assms(2,5) by simp
  from dispatch_throw [OF this assms(3,6), of "[k3]"] show ?thesis
    by (simp add: Parse_def assms(1))
qed

lemma statics_failing_keys:
  "for_in_keys (BabylonFileParsers statics_failing) = [''a'', ''b'', ''c'']"
  by (simp add: statics_failing_def for_in_keys_def own_keys_def is_array_index_def
      is_digit_def)

theorem Parse_stops_at_first_throw_witness:
  "for_in_keys (BabylonFileParsers statics_failing) = [''a'', ''b'', ''c'']
   \<and> fn_call parser_a 10 20 30 ''root/'' [] = (Normal, [''a''])
   \<and> fn_call parser_b 10 20 30 ''root/'' [''a''] = (Throw ''boom'', [''a'', ''b''])
   \<and> Parse statics_failing 10 20 30 ''root/'' [] =
       ([Invocation ''a'' parser_a 10 20 30 ''root/'', Invocation ''b'' parser_b 10 20 30 ''root/''],
        Throw ''boom'', [''a'', ''b''])"
proof -
  have pa: "own_property (BabylonFileParsers statics_failing) ''a'' = Some parser_a"
    and pb: "own_property (BabylonFileParsers statics_failing) ''b'' = Some parser_b"
    and pc: "own_property (BabylonFileParsers statics_failing) ''c'' = Some parser_c"
    by (simp_all add: statics_failing_def own_property_def)
  have ca: "fn_call parser_a 10 20 30 ''root/'' [] = (Normal, [''a''])"
    by (simp add: parser_a_def)
  have cb: "fn_call parser_b 10 20 30 ''root/'' [''a''] = (Throw ''boom'', [''a'', ''b''])"
    by (simp add: parser_b_def)
  from Parse_stops_at_first_throw [OF statics_failing_keys pa pb pc ca cb]
  show ?thesis using statics_failing_keys ca cb by simp
qed

text \<open>
  Claim C4. The claim is that, for every name \<open>n\<close> and parser \<open>p\<close>, \<^verbatim>\<open>AddParser(n, p)\<close>
  followed by \<^verbatim>\<open>GetParser(n)\<close> returns \<open>p\<close>. It fails on a registry whose prototype an
  earlier \<^verbatim>\<open>AddParser("__proto__", parser_a)\<close> has replaced (claim C9): the registry then
  inherits the read-only property \<^verbatim>\<open>length\<close> of the function, the assignment in
  \<^verbatim>\<open>AddParser("length", parser_c)\<close> throws a TypeError and stores nothing, and
  \<^verbatim>\<open>GetParser("length")\<close> returns the number 4, not \<open>parser_c\<close>.
\<close>

theorem AddParser_throws_on_replaced_prototype:
  "AddParser ''__proto__'' parser_a fresh_statics = Inr statics_proto_replaced
   \<and> AddParser ''length'' parser_c statics_proto_replaced = Inl TypeError
   \<and> GetParser ''length'' statics_proto_replaced = Inr (JSNumber 4)
   \<and> GetParser ''length'' statics_proto_replaced \<noteq> Inr (JSFunction parser_c)"
  by (simp add: fresh_statics_def initial_statics_def empty_object_def
      statics_proto_replaced_def AddParser_def GetParser_def js_get_def js_set_def
      own_property_def inherited_slot_def object_prototype_slot_def
      object_prototype_methods_def function_object_slot_def parser_a_def)

text \<open>
  What holds in every registry state: once \<^verbatim>\<open>AddParser(n, p)\<close> has returned,
  \<^verbatim>\<open>GetParser(n)\<close> returns \<open>p\<close> itself, and the same for the individual registry; the
  names include those of inherited properties, such as \<^verbatim>\<open>toString\<close> and \<^verbatim>\<open>__proto__\<close>.
  Registration returns in every state in which the prototype of the registry is
  \<^verbatim>\<open>Object.prototype\<close>, as it is from the start.
\<close>

lemma AddParser_then_GetParser:
  "(AddParser n p st = Inr st1 \<longrightarrow> GetParser n st1 = Inr (JSFunction p))
   \<and> (AddIndividualParser n q st = Inr st2 \<longrightarrow> GetIndividualParser n st2 = Inr (JSFunction q))
   \<and> (proto (BabylonFileParsers st) = ObjectPrototype \<longrightarrow> (\<exists>st'. AddParser n p st = Inr st'))
   \<and> (proto (IndividualBabylonFileParsers st) = ObjectPrototype
        \<longrightarrow> (\<exists>st'. AddIndividualParser n q st = Inr st'))"
proof (intro conjI impI)
  assume "AddParser n p st = Inr st1"
  then obtain obj where "js_set (BabylonFileParsers st) n p = Inr obj"
    and "st1 = st\<lparr>BabylonFileParsers := obj\<rparr>"
    by (auto simp: AddParser_def split: sum.splits)
  then show "GetParser n st1 = Inr (JSFunction p)"
    using js_set_get [of "BabylonFileParsers st" n p obj] by (simp add: GetParser_def)
next
  assume "AddIndividualParser n q st = Inr st2"
  then obtain obj where "js_set (IndividualBabylonFileParsers st) n q = Inr obj"
    and "st2 = st\<lparr>IndividualBabylonFileParsers := obj\<rparr>"
    by (auto simp: AddIndividualParser_def split: sum.splits)
  then show "GetIndividualParser n st2 = Inr (JSFunction q)"
    using js_set_get [of "IndividualBabylonFileParsers st" n q obj]
    by (simp add: GetIndividualParser_def)
next
  assume "proto (BabylonFileParsers st) = ObjectPrototype"
  from js_set_default_proto [OF this, of n p] show "\<exists>st'. AddParser n p st = Inr st'"
    by (auto simp: AddParser_def)
next
  assume "proto (IndividualBabylonFileParsers st) = ObjectPrototype"
  from js_set_default_proto [OF this, of n q]
  show "\<exists>st'. AddIndividualParser n q st = Inr st'"
    by (auto simp: AddIndividualParser_def)
qed

text \<open>
  Claim C5. The claim is that, for every name \<open>n\<close>, after \<^verbatim>\<open>AddParser(n, p1)\<close> and
  \<^verbatim>\<open>AddParser(n, p2)\<close> the lookup \<^verbatim>\<open>GetParser(n)\<close> yields \<open>p2\<close>. It fails on the same
  registry as claim C4: after \<^verbatim>\<open>AddParser("__proto__", parser_a)\<close>, both
  \<^verbatim>\<open>AddParser("length", parser_b)\<close> and \<^verbatim>\<open>AddParser("length", parser_c)\<close> throw a
  TypeError, no entry is made, and \<^verbatim>\<open>GetParser("length")\<close> is the number 4.
\<close>

theorem AddParser_twice_throws_on_replaced_prototype:
  "AddParser ''__proto__'' parser_a fresh_statics = Inr statics_proto_replaced
   \<and> AddParser ''length'' parser_b statics_proto_replaced = Inl TypeError
   \<and> AddParser ''length'' parser_c statics_proto_replaced = Inl TypeError
   \<and> own (BabylonFileParsers statics_proto_replaced) = []
   \<and> GetParser ''length'' statics_proto_replaced = Inr (JSNumber 4)"
  by (simp add: fresh_statics_def initial_statics_def empty_object_def
      statics_proto_replaced_def AddParser_def GetParser_def js_get_def js_set_def
      own_property_def inherited_slot_def object_prototype_slot_def
      object_prototype_methods_def function_object_slot_def parser_a_def)

text \<open>
  What holds in every registry state: once \<^verbatim>\<open>AddParser(n, p1)\<close> has returned,
  \<^verbatim>\<open>AddParser(n, p2)\<close> returns as well, \<^verbatim>\<open>GetParser(n)\<close> then returns \<open>p2\<close>, and the
  registry is the very one that \<^verbatim>\<open>AddParser(n, p2)\<close> alone would have produced, so
  nothing of \<open>p1\<close> is left in it. The registry keeps at most one entry for each name.
\<close>

lemma AddParser_twice:
  assumes "AddParser n p1 st = Inr st1"
  shows "\<exists>st2. AddParser n p2 st1 = Inr st2
        \<and> GetParser n st2 = Inr (JSFunction p2)
        \<and> AddParser n p2 st = Inr st2
        \<and> (distinct (map fst (own (BabylonFileParsers st)))
             \<longrightarrow> distinct (map fst (own (BabylonFileParsers st1)))
                 \<and> distinct (map fst (own (BabylonFileParsers st2))))"
proof -
  from assms obtain o1 where o1: "js_set (BabylonFileParsers st) n p1 = Inr o1"
    and st1: "st1 = st\<lparr>BabylonFileParsers := o1\<rparr>"
    by (auto simp: AddParser_def split: sum.splits)
  from js_set_completes [OF o1, of p2] obtain o2
    where o2: "js_set (BabylonFileParsers st) n p2 = Inr o2" by blast
  have o12: "js_set o1 n p2 = Inr o2" using js_set_twice [OF o1, of p2] o2 by simp
  have d: "distinct (map fst (own (BabylonFileParsers st)))
             \<longrightarrow> distinct (map fst (own o1)) \<and> distinct (map fst (own o2))"
    using js_set_distinct [OF o1] js_set_distinct [OF o2] by blast
  show ?thesis
    using o2 o12 d js_set_get [OF o2]
    by (simp add: st1 AddParser_def GetParser_def)
qed

text \<open>
  Claim C6. The claim is that \<^verbatim>\<open>GetParser(n)\<close> and \<^verbatim>\<open>GetIndividualParser(n)\<close> return
  \<^verbatim>\<open>null\<close> for every name that was never registered. The lookup \<^verbatim>\<open>obj[name]\<close> follows the
  prototype chain and, unlike \<^verbatim>\<open>Parse\<close>, the getters do not ask for an own property: on
  the initial, empty registries the names \<^verbatim>\<open>toString\<close> and \<^verbatim>\<open>constructor\<close> return the
  built-in members of \<^verbatim>\<open>Object.prototype\<close>, not \<^verbatim>\<open>null\<close>.
\<close>

theorem GetParser_returns_inherited_member:
  "own (BabylonFileParsers fresh_statics) = []
   \<and> own (IndividualBabylonFileParsers fresh_statics) = []
   \<and> GetParser ''toString'' fresh_statics = Inr (JSIntrinsic ''Object.prototype.toString'')
   \<and> GetIndividualParser ''constructor'' fresh_statics = Inr (JSIntrinsic ''Object'')"
  by (simp add: fresh_statics_def initial_statics_def empty_object_def GetParser_def
      GetIndividualParser_def js_get_def own_property_def inherited_slot_def
      object_prototype_slot_def object_prototype_methods_def)

text \<open>A name that is neither registered nor inherited does return \<^verbatim>\<open>null\<close>.\<close>

lemma GetParser_unregistered:
  assumes "own_property (BabylonFileParsers st) n = None"
      and "inherited_slot (BabylonFileParsers st) n = Absent"
  shows "GetParser n st = Inr JSNull"
  using assms by (simp add: GetParser_def js_get_def)

text \<open>On a registry whose prototype is \<^verbatim>\<open>Object.prototype\<close> the lookup never throws.\<close>

lemma GetParser_returns:
  assumes "proto (BabylonFileParsers st) = ObjectPrototype"
  shows "\<exists>v. GetParser n st = Inr v"
proof (cases "own_property (BabylonFileParsers st) n")
  case (Some f)
  then show ?thesis by (simp add: GetParser_def js_get_own)
next
  case None
  from object_prototype_writable [OF assms, of n] None show ?thesis
    by (cases "inherited_slot (BabylonFileParsers st) n")
      (auto simp: GetParser_def js_get_def assms)
qed

text \<open>
  Claim C9. The claim is that \<^verbatim>\<open>AddParser(n, p)\<close> changes the whole-scene lookup of \<open>n\<close>
  only. For \<open>n\<close> = \<^verbatim>\<open>__proto__\<close> the assignment runs the setter inherited from
  \<^verbatim>\<open>Object.prototype\<close>: the registry gets \<open>p\<close> as its prototype and no entry, so
  \<^verbatim>\<open>Parse\<close> never calls \<open>p\<close>, and lookups of other names now reach the properties of the
  function \<open>p\<close>. On the initial registry \<^verbatim>\<open>GetParser("length")\<close> is \<^verbatim>\<open>null\<close>; after
  \<^verbatim>\<open>AddParser("__proto__", parser_a)\<close> it is the number 4.
\<close>

theorem AddParser_proto_changes_other_lookups:
  "GetParser ''length'' fresh_statics = Inr JSNull
   \<and> AddParser ''__proto__'' parser_a fresh_statics = Inr statics_proto_replaced
   \<and> GetParser ''length'' statics_proto_replaced = Inr (JSNumber 4)
   \<and> Parse statics_proto_replaced 10 20 30 ''root/'' [] = ([], Normal, [])"
  by (simp add: fresh_statics_def initial_statics_def empty_object_def
      statics_proto_replaced_def AddParser_def GetParser_def js_get_def js_set_def
      own_property_def inherited_slot_def object_prototype_slot_def
      object_prototype_methods_def function_object_slot_def parser_a_def
      Parse_def for_in_keys_def own_keys_def)

text \<open>For every other name the frame property holds, in every registry state: a completed
  \<^verbatim>\<open>AddParser(n, p)\<close> leaves the individual registry as it was and, when \<open>n\<close> is not
  \<^verbatim>\<open>__proto__\<close>, leaves \<^verbatim>\<open>GetParser(m)\<close> unchanged for every \<open>m\<close> other than \<open>n\<close>; and
  symmetrically.\<close>

lemma AddParser_frame:
  assumes "AddParser n p st = Inr st'"
  shows "IndividualBabylonFileParsers st' = IndividualBabylonFileParsers st
       \<and> (\<forall>k. GetIndividualParser k st' = GetIndividualParser k st)
       \<and> (n \<noteq> ''__proto__'' \<longrightarrow> m \<noteq> n \<longrightarrow> GetParser m st' = GetParser m st)"
proof -
  from assms obtain obj' where
    s: "js_set (BabylonFileParsers st) n p = Inr obj'"
    and st': "st' = st\<lparr>BabylonFileParsers := obj'\<rparr>"
    by (auto simp: AddParser_def split: sum.splits)
  show ?thesis using js_set_other [OF s, of m]
    by (auto simp: st' GetParser_def GetIndividualParser_def split: sum.splits)
qed

lemma AddIndividualParser_frame:
  assumes "AddIndividualParser n p st = Inr st'"
  shows "BabylonFileParsers st' = BabylonFileParsers st
       \<and> (\<forall>k. GetParser k st' = GetParser k st)
       \<and> (n \<noteq> ''__proto__'' \<longrightarrow> m \<noteq> n \<longrightarrow> GetIndividualParser m st' = GetIndividualParser m st)"
proof -
  from assms obtain obj' where
    s: "js_set (IndividualBabylonFileParsers st) n p = Inr obj'"
    and st': "st' = st\<lparr>IndividualBabylonFileParsers := obj'\<rparr>"
    by (auto simp: AddIndividualParser_def split: sum.splits)
  show ?thesis using js_set_other [OF s, of m]
    by (auto simp: st' GetParser_def GetIndividualParser_def split: sum.splits)
qed

section \<open>Properties of the container\<close>

subsection \<open>The loop over the skeletons\<close>

lemma concat_bones_Cons:
  "concat_bones (sk # sks) (nodes, s) =
     concat_bones sks (next_address s,
       s\<lparr>arrays := (arrays s)(next_address s := arrays s nodes @ arrays s (bones s sk)),
         next_address := Suc (next_address s)\<rparr>)"
  by (simp add: array_concat_def new_Array_def)

lemma concat_bones_next:
  "next_address (snd (concat_bones sks (nodes, s))) = next_address s + length sks
   \<and> bones (snd (concat_bones sks (nodes, s))) = bones s"
  by (induction sks arbitrary: nodes s) (simp_all add: array_concat_def new_Array_def)

lemma concat_bones_frame:
  "a < next_address s \<Longrightarrow> arrays (snd (concat_bones sks (nodes, s))) a = arrays s a"
  by (induction sks arbitrary: nodes s) (simp_all add: array_concat_def new_Array_def)

lemma concat_bones_result:
  "nodes < next_address s \<Longrightarrow>
     fst (concat_bones sks (nodes, s)) < next_address s + length sks
     \<and> nodes \<le> fst (concat_bones sks (nodes, s))"
proof (induction sks arbitrary: nodes s)
  case Nil
  then show ?case by simp
next
  case (Cons sk sks)
  let ?s1 = "s\<lparr>arrays := (arrays s)(next_address s := arrays s nodes @ arrays s (bones s sk)),
         next_address := Suc (next_address s)\<rparr>"
  have "next_address s < next_address ?s1" by simp
  from Cons.IH [OF this] Cons.prems show ?case
    unfolding concat_bones_Cons by simp
qed

lemma concat_bones_content:
  assumes "nodes < next_address s" and "\<forall>sk \<in> set sks. bones s sk < next_address s"
  shows "arrays (snd (concat_bones sks (nodes, s))) (fst (concat_bones sks (nodes, s))) =
           arrays s nodes @ concat (map (\<lambda>sk. arrays s (bones s sk)) sks)"
  using assms
proof (induction sks arbitrary: nodes s)
  case Nil
  then show ?case by simp
next
  case (Cons sk sks)
  let ?s1 = "s\<lparr>arrays := (arrays s)(next_address s := arrays s nodes @ arrays s (bones s sk)),
         next_address := Suc (next_address s)\<rparr>"
  have n1: "next_address s < next_address ?s1" by simp
  have b1: "\<forall>k \<in> set sks. bones ?s1 k < next_address ?s1"
    using Cons.prems(2) by (simp add: less_Suc_eq)
  have m: "map (\<lambda>k. arrays ?s1 (bones ?s1 k)) sks = map (\<lambda>k. arrays s (bones s k)) sks"
    using Cons.prems(2) by (intro map_cong) auto
  have "arrays (snd (concat_bones sks (next_address s, ?s1)))
          (fst (concat_bones sks (next_address s, ?s1))) =
        arrays ?s1 (next_address s) @ concat (map (\<lambda>k. arrays ?s1 (bones ?s1 k)) sks)"
    by (rule Cons.IH [OF n1 b1])
  also have "\<dots> = (arrays s nodes @ arrays s (bones s sk))
                   @ concat (map (\<lambda>k. arrays s (bones s k)) sks)"
    unfolding m by simp
  finally show ?case unfolding concat_bones_Cons by simp
qed

subsection \<open>\<^verbatim>\<open>getNodes\<close>\<close>

lemma wf_sceneD:
  assumes "wf_scene this s"
  shows "meshes this < next_address s" "lights this < next_address s"
    "cameras this < next_address s" "transformNodes this < next_address s"
    "skeletons this < next_address s"
    "\<forall>a \<in> set (sequences this). a < next_address s"
    "\<forall>sk \<in> set (arrays s (skeletons this)). bones s sk < next_address s"
  using assms by (simp_all add: wf_scene_def sequences_def list_all_iff)

text \<open>The store after the four \<^verbatim>\<open>concat\<close> calls on meshes, lights, cameras and transform
  nodes: five arrays have been allocated, the last of them holds the four sequences.\<close>

lemma getNodes_before_loop:
  assumes "wf_scene this s"
  shows "\<exists>s1. getNodes this s =
            concat_bones (arrays s (skeletons this)) (next_address s + 4, s1)
          \<and> next_address s1 = next_address s + 5
          \<and> bones s1 = bones s
          \<and> (\<forall>a < next_address s. arrays s1 a = arrays s a)
          \<and> arrays s1 (next_address s + 4) =
              arrays s (meshes this) @ arrays s (lights this) @ arrays s (cameras this)
              @ arrays s (transformNodes this)"
proof -
  let ?n = "next_address s"
  let ?s1 = "s\<lparr>arrays := (arrays s)
            (?n := [],
             Suc ?n := arrays s (meshes this),
             Suc (Suc ?n) := arrays s (meshes this) @ arrays s (lights this),
             Suc (Suc (Suc ?n)) :=
               arrays s (meshes this) @ arrays s (lights this) @ arrays s (cameras this),
             Suc (Suc (Suc (Suc ?n))) :=
               arrays s (meshes this) @ arrays s (lights this) @ arrays s (cameras this)
                 @ arrays s (transformNodes this)),
         next_address := Suc (Suc (Suc (Suc (Suc ?n))))\<rparr>"
  have four: "?n + 4 = Suc (Suc (Suc (Suc ?n)))" by simp
  have "getNodes this s = concat_bones (arrays s (skeletons this)) (?n + 4, ?s1)"
    unfolding four using wf_sceneD(1-5) [OF assms]
    by (simp add: getNodes_def array_concat_def new_Array_def)
  moreover have "next_address ?s1 = ?n + 5" by simp
  moreover have "bones ?s1 = bones s" by simp
  moreover have "\<forall>a < ?n. arrays ?s1 a = arrays s a" by simp
  moreover have "arrays ?s1 (?n + 4) =
              arrays s (meshes this) @ arrays s (lights this) @ arrays s (cameras this)
              @ arrays s (transformNodes this)"
    unfolding four by simp
  ultimately show ?thesis by blast
qed

lemma getNodes_content:
  assumes "wf_scene this s"
  shows "arrays (snd (getNodes this s)) (fst (getNodes this s)) =
      arrays s (meshes this) @ arrays s (lights this) @ arrays s (cameras this)
      @ arrays s (transformNodes this)
      @ concat (map (\<lambda>sk. arrays s (bones s sk)) (arrays s (skeletons this)))"
proof -
  let ?sks = "arrays s (skeletons this)"
  from getNodes_before_loop [OF assms] obtain s1 where
    g: "getNodes this s = concat_bones ?sks (next_address s + 4, s1)"
    and nx: "next_address s1 = next_address s + 5"
    and bn: "bones s1 = bones s"
    and old: "\<forall>a < next_address s. arrays s1 a = arrays s a"
    and res: "arrays s1 (next_address s + 4) =
              arrays s (meshes this) @ arrays s (lights this) @ arrays s (cameras this)
              @ arrays s (transformNodes this)"
    by blast
  have n: "next_address s + 4 < next_address s1" by (simp add: nx)
  have b: "\<forall>sk \<in> set ?sks. bones s1 sk < next_address s1"
    using wf_sceneD(7) [OF assms] by (auto simp: nx bn)
  have m: "map (\<lambda>sk. arrays s1 (bones s1 sk)) ?sks = map (\<lambda>sk. arrays s (bones s sk)) ?sks"
    using wf_sceneD(7) [OF assms] old by (intro map_cong) (auto simp: bn)
  show ?thesis
    unfolding g concat_bones_content [OF n b] m res by simp
qed

lemma getNodes_fresh:
  assumes "wf_scene this s"
  shows "next_address s \<le> fst (getNodes this s)"
    and "fst (getNodes this s) < next_address (snd (getNodes this s))"
    and "bones (snd (getNodes this s)) = bones s"
    and "next_address s \<le> next_address (snd (getNodes this s))"
    and "\<And>a. a < next_address s \<Longrightarrow> arrays (snd (getNodes this s)) a = arrays s a"
proof -
  let ?sks = "arrays s (skeletons this)"
  from getNodes_before_loop [OF assms] obtain s1 where
    g: "getNodes this s = concat_bones ?sks (next_address s + 4, s1)"
    and nx: "next_address s1 = next_address s + 5"
    and bn: "bones s1 = bones s"
    and old: "\<forall>a < next_address s. arrays s1 a = arrays s a"
    by blast
  have n: "next_address s + 4 < next_address s1" by (simp add: nx)
  note r = concat_bones_result [OF n, of ?sks]
  note cn = concat_bones_next [of ?sks "next_address s + 4" s1]
  show "next_address s \<le> fst (getNodes this s)"
    unfolding g using r by simp
  show "fst (getNodes this s) < next_address (snd (getNodes this s))"
    unfolding g using r cn by simp
  show "bones (snd (getNodes this s)) = bones s"
    unfolding g using cn by (simp add: bn)
  show "next_address s \<le> next_address (snd (getNodes this s))"
    unfolding g using cn by (simp add: nx)
  show "\<And>a. a < next_address s \<Longrightarrow> arrays (snd (getNodes this s)) a = arrays s a"
    unfolding g using old by (simp add: concat_bones_frame nx)
qed

lemma getNodes_preserves_wf:
  assumes "wf_scene this s"
  shows "wf_scene this (snd (getNodes this s))"
  using wf_sceneD [OF assms] getNodes_fresh [OF assms]
  by (auto simp: wf_scene_def list_all_iff sequences_def)

lemma example_wf: "wf_scene example_scene example_store"
  by (simp add: wf_scene_def sequences_def example_scene_def example_store_def)

subsection \<open>Construction\<close>





subsection \<open>Claims about the container\<close>

text \<open>
  Claim C3. For every well-formed container, the array returned by \<^verbatim>\<open>getNodes()\<close> holds
  the meshes, then the lights, then the cameras, then the transform nodes, then the bones
  of the first skeleton, of the second, and so on, each sequence in its stored order:
  the plain concatenation, so nothing is removed or merged, and nothing comes from any
  other field of the container.
\<close>

theorem getNodes_is_concatenation:
  assumes "wf_scene this s"
  shows "arrays (snd (getNodes this s)) (fst (getNodes this s)) =
      arrays s (meshes this) @ arrays s (lights this) @ arrays s (cameras this)
      @ arrays s (transformNodes this)
      @ concat (map (\<lambda>skeleton. arrays s (bones s skeleton)) (arrays s (skeletons this)))"
  using assms by (rule getNodes_content)

theorem getNodes_is_concatenation_witness:
  "wf_scene example_scene example_store
   \<and> arrays (snd (getNodes example_scene example_store))
        (fst (getNodes example_scene example_store))
     = [''m1'', ''l1'', ''c1'', ''t1'', ''b1'', ''b2'']"
  using getNodes_is_concatenation [OF example_wf] example_wf
  by (simp add: example_scene_def example_store_def)

text \<open>
  Claim C7. For every well-formed container, two successive calls of \<^verbatim>\<open>getNodes()\<close>
  return two different arrays, each allocated by its call (its address was unused before
  the call) and therefore none of the arrays of the container; and whatever is written
  into a returned array afterwards, every array of the container, and every bones array
  of its skeletons, still holds what it held before the first call.
\<close>

theorem getNodes_returns_new_array:
  assumes "wf_scene this s"
  shows "(let (r1, s1) = getNodes this s; (r2, s2) = getNodes this s1 in
           r1 \<noteq> r2
           \<and> next_address s \<le> r1 \<and> next_address s1 \<le> r2
           \<and> r1 \<notin> set (sequences this) \<and> r2 \<notin> set (sequences this)
           \<and> (\<forall>xs. \<forall>a \<in> set (sequences this).
                 ((arrays s2)(r1 := xs)) a = arrays s a
                 \<and> ((arrays s2)(r2 := xs)) a = arrays s a)
           \<and> (\<forall>xs. \<forall>skeleton \<in> set (arrays s (skeletons this)).
                 ((arrays s2)(r1 := xs)) (bones s2 skeleton) = arrays s (bones s skeleton)
                 \<and> ((arrays s2)(r2 := xs)) (bones s2 skeleton) = arrays s (bones s skeleton)))"
proof -
  let ?r1 = "fst (getNodes this s)" and ?s1 = "snd (getNodes this s)"
  let ?r2 = "fst (getNodes this ?s1)" and ?s2 = "snd (getNodes this ?s1)"
  have wf1: "wf_scene this ?s1" using assms by (rule getNodes_preserves_wf)
  note f1 = getNodes_fresh [OF assms]
  note f2 = getNodes_fresh [OF wf1]
  have r1: "next_address s \<le> ?r1" and r2: "next_address ?s1 \<le> ?r2"
    using f1(1) f2(1) by simp_all
  have ne: "?r1 \<noteq> ?r2" using f1(2) r2 by simp
  have old: "\<And>a. a < next_address s \<Longrightarrow> arrays ?s2 a = arrays s a"
    using f1(4,5) f2(5) by simp
  have seqs: "\<forall>a \<in> set (sequences this). a < next_address s"
    using wf_sceneD(6) [OF assms] .
  have bns: "\<forall>sk \<in> set (arrays s (skeletons this)). bones s sk < next_address s"
    using wf_sceneD(7) [OF assms] .
  have b2: "bones ?s2 = bones s" using f1(3) f2(3) by simp
  have "?r1 \<notin> set (sequences this)" "?r2 \<notin> set (sequences this)"
    using seqs r1 r2 f1(4) by auto
  moreover have "\<forall>xs. \<forall>a \<in> set (sequences this).
                 ((arrays ?s2)(?r1 := xs)) a = arrays s a
                 \<and> ((arrays ?s2)(?r2 := xs)) a = arrays s a"
    using seqs r1 r2 f1(4) old by auto
  moreover have "\<forall>xs. \<forall>sk \<in> set (arrays s (skeletons this)).
                 ((arrays ?s2)(?r1 := xs)) (bones ?s2 sk) = arrays s (bones s sk)
                 \<and> ((arrays ?s2)(?r2 := xs)) (bones ?s2 sk) = arrays s (bones s sk)"
    unfolding b2 using bns r1 r2 f1(4) old by auto
  ultimately show ?thesis using ne r1 r2 by (simp add: case_prod_beta)
qed

theorem getNodes_returns_new_array_witness:
  "wf_scene example_scene example_store
   \<and> fst (getNodes example_scene example_store) = 22
   \<and> fst (getNodes example_scene (snd (getNodes example_scene example_store))) = 28
   \<and> (let (r1, s1) = getNodes example_scene example_store;
          (r2, s2) = getNodes example_scene s1 in
        r1 \<noteq> r2
        \<and> next_address example_store \<le> r1 \<and> next_address s1 \<le> r2
        \<and> r1 \<notin> set (sequences example_scene) \<and> r2 \<notin> set (sequences example_scene)
        \<and> (\<forall>xs. \<forall>a \<in> set (sequences example_scene).
              ((arrays s2)(r1 := xs)) a = arrays example_store a
              \<and> ((arrays s2)(r2 := xs)) a = arrays example_store a)
        \<and> (\<forall>xs. \<forall>skeleton \<in> set (arrays example_store (skeletons example_scene)).
              ((arrays s2)(r1 := xs)) (bones s2 skeleton)
                = arrays example_store (bones example_store skeleton)
              \<and> ((arrays s2)(r2 := xs)) (bones s2 skeleton)
                = arrays example_store (bones example_store skeleton)))"
proof -
  have r1: "fst (getNodes example_scene example_store) = 22"
    by (simp add: getNodes_def array_concat_def new_Array_def example_scene_def
        example_store_def)
  have r2: "fst (getNodes example_scene (snd (getNodes example_scene example_store))) = 28"
    by (simp add: getNodes_def array_concat_def new_Array_def example_scene_def
        example_store_def)
  from example_wf r1 r2 getNodes_returns_new_array [OF example_wf]
  show ?thesis by blast
qed

text \<open>
  Claim C8. Setting the environment texture to any value, a texture reference or
  \<^verbatim>\<open>null\<close>, and reading it returns that value; on a container just constructed it reads
  as \<^verbatim>\<open>null\<close>.
\<close>

theorem environmentTexture_set_get:
  "get_environmentTexture (set_environmentTexture t this) = t
   \<and> get_environmentTexture (fst (new_AbstractScene s)) = None"
  by (simp add: get_environmentTexture_def set_environmentTexture_def new_AbstractScene_def
      new_Array_def)



end
